theory Spec2Isabelle
  imports Complex_Main
begin

section \<open>Python strings\<close>

text \<open>
  A Python \<open>str\<close> is a sequence of Unicode code points, and \<open>len\<close>, slicing and the
  \<open>re\<close> module all count code points. A string is therefore a list of code points
  (natural numbers); \<open>ustr\<close> turns an ASCII literal into such a list.
\<close>

type_synonym codepoint = nat
type_synonym str = "codepoint list"

definition ustr :: "string \<Rightarrow> str" where
  "ustr s = map of_char s"

text \<open>
  The characters that \<open>\s\<close> matches in a \<open>str\<close> pattern and that \<open>str.strip\<close> and
  \<open>str.rstrip\<close> remove: both use CPython's \<open>Py_UNICODE_ISSPACE\<close>, that is TAB to CR,
  FS to US, SPACE, NEL, NBSP and the Unicode space separators.
\<close>

definition is_space :: "codepoint \<Rightarrow> bool" where
  "is_space c \<longleftrightarrow>
     (9 \<le> c \<and> c \<le> 13) \<or> (28 \<le> c \<and> c \<le> 32) \<or> c = 133 \<or> c = 160 \<or> c = 5760 \<or>
     (8192 \<le> c \<and> c \<le> 8202) \<or> c = 8232 \<or> c = 8233 \<or> c = 8239 \<or> c = 8287 \<or>
     c = 12288"

definition newline :: codepoint where "newline = 10"
definition space :: codepoint where "space = 32"
definition dash :: codepoint where "dash = 45"

text \<open>The eight characters removed by the first six substitutions of \<open>clean_text\<close>.\<close>

definition star :: codepoint where "star = 42"
definition underscore :: codepoint where "underscore = 95"
definition backtick :: codepoint where "backtick = 96"
definition hash :: codepoint where "hash = 35"
definition lbracket :: codepoint where "lbracket = 91"
definition rbracket :: codepoint where "rbracket = 93"
definition lparen :: codepoint where "lparen = 40"
definition rparen :: codepoint where "rparen = 41"

lemmas char_defs =
  newline_def space_def dash_def star_def underscore_def backtick_def hash_def
  lbracket_def rbracket_def lparen_def rparen_def

subsection \<open>The substitutions of \<open>re.sub\<close>\<close>

text \<open>
  \<open>re.sub\<close> scans the text from left to right and replaces each leftmost match; the
  search resumes where the match ended. \<open>sub_each P r\<close> is \<open>re.sub\<close> for a pattern that
  matches exactly one character of the class \<open>P\<close> (\<open>\*\<close>, \<open>_\<close>, \<open>\[|\]\<close>, \<open>\(|\)\<close>);
  \<open>sub_runs P r\<close> is \<open>re.sub\<close> for a greedy pattern \<open>P+\<close> (\<open>`+\<close>, \<open>#+\<close>, \<open>\s+\<close>),
  whose match is the maximal run of \<open>P\<close> characters.
\<close>

fun sub_each :: "(codepoint \<Rightarrow> bool) \<Rightarrow> str \<Rightarrow> str \<Rightarrow> str" where
  "sub_each P r [] = []"
| "sub_each P r (c # cs) = (if P c then r @ sub_each P r cs else c # sub_each P r cs)"

function sub_runs :: "(codepoint \<Rightarrow> bool) \<Rightarrow> str \<Rightarrow> str \<Rightarrow> str" where
  "sub_runs P r [] = []"
| "sub_runs P r (c # cs) =
     (if P c then r @ sub_runs P r (dropWhile P cs) else c # sub_runs P r cs)"
  by pat_completeness auto
termination
  by (relation "measure (\<lambda>(P, r, text). length text)")
     (auto simp: less_Suc_eq_le length_dropWhile_le)

text \<open>
  The pattern \<open>^\s*-\s*\<close> tried at the head of \<open>text\<close>: \<open>\s*\<close> is greedy and a
  whitespace character is never a dash, so the pattern matches exactly when the first
  character after the leading whitespace is a dash. The result is the matched text and
  what follows it.
\<close>

definition match_bullet :: "str \<Rightarrow> (str \<times> str) option" where
  "match_bullet text =
     (case dropWhile is_space text of
        [] \<Rightarrow> None
      | d # after \<Rightarrow>
          if d = dash
          then Some (takeWhile is_space text @ [d] @ takeWhile is_space after,
                     dropWhile is_space after)
          else None)"

lemma match_bullet_shorter:
  assumes "match_bullet text = Some (m, rest)"
  shows "length rest < length text"
proof -
  from assms obtain d after where
    d: "dropWhile is_space text = d # after" and r: "rest = dropWhile is_space after"
    by (auto simp: match_bullet_def split: list.splits if_splits)
  have "length rest \<le> length after"
    unfolding r by (rule length_dropWhile_le)
  also have "\<dots> < length (dropWhile is_space text)"
    unfolding d by simp
  also have "\<dots> \<le> length text"
    by (rule length_dropWhile_le)
  finally show ?thesis .
qed

text \<open>
  \<open>re.sub(r"^\s*-\s*", "", text, flags=re.MULTILINE)\<close>. With \<open>re.MULTILINE\<close> the anchor
  \<open>^\<close> holds at the start of the text and right after each newline; \<open>bol\<close> says whether
  it holds at the current position. After a match the search resumes behind it, where
  \<open>^\<close> holds when the last matched character is a newline.
\<close>

function sub_bullets :: "bool \<Rightarrow> str \<Rightarrow> str" where
  "sub_bullets bol [] = []"
| "sub_bullets bol (c # cs) =
     (case (if bol then match_bullet (c # cs) else None) of
        Some (m, rest) \<Rightarrow> sub_bullets (last m = newline) rest
      | None \<Rightarrow> c # sub_bullets (c = newline) cs)"
  by pat_completeness auto
termination
  by (relation "measure (\<lambda>(bol, text). length text)")
     (auto split: if_splits dest: match_bullet_shorter)

subsection \<open>String methods\<close>

definition replace_char :: "codepoint \<Rightarrow> codepoint \<Rightarrow> str \<Rightarrow> str" where
  "replace_char a b text = map (\<lambda>c. if c = a then b else c) text"

definition rstrip :: "str \<Rightarrow> str" where
  "rstrip text = rev (dropWhile is_space (rev text))"

definition strip :: "str \<Rightarrow> str" where
  "strip text = dropWhile is_space (rstrip text)"

section \<open>The text sanitizer\<close>

definition max_len :: nat where "max_len = 700"

definition more_suffix :: str where
  "more_suffix = ustr ''... Let me know if you want more.''"

text \<open>The statements of \<open>clean_text\<close> up to and including the collapse of whitespace.\<close>

definition normalise :: "str \<Rightarrow> str" where
  "normalise text =
     (let text = sub_each (\<lambda>c. c = star) [] text;
          text = sub_each (\<lambda>c. c = underscore) [] text;
          text = sub_runs (\<lambda>c. c = backtick) [] text;
          text = sub_runs (\<lambda>c. c = hash) [] text;
          text = sub_each (\<lambda>c. c = lbracket \<or> c = rbracket) [] text;
          text = sub_each (\<lambda>c. c = lparen \<or> c = rparen) [] text;
          text = sub_bullets True text;
          text = replace_char newline space text
      in strip (sub_runs is_space [space] text))"

definition clean_text :: "str \<Rightarrow> str" where
  "clean_text text =
     (if text = [] then text
      else let text = normalise text
           in if length text > max_len
              then rstrip (take max_len text) @ more_suffix
              else text)"

section \<open>Python values decoded from JSON\<close>

text \<open>
  The event handed to the handler and the reply of the completion service are values
  decoded from JSON: \<open>None\<close>, booleans, numbers, strings, lists and dicts. A dict keeps
  its items in insertion order, which is the order \<open>items()\<close> iterates in, so it is an
  association list; the keys of a dict are distinct, and where a list repeats a key a
  lookup finds the first entry. No property below needs the keys to be distinct. Numbers
  are only ever tested for truth by this program.
\<close>

datatype json =
    JNull
  | JBool bool
  | JNum real
  | JStr str
  | JArr "json list"
  | JObj "(str \<times> json) list"

datatype error = AttributeError | KeyError | TypeError | IndexError

text \<open>Truth value testing, as done by \<open>if x\<close>, \<open>not x\<close>, \<open>x and y\<close> and \<open>x or y\<close>.\<close>

fun truthy :: "json \<Rightarrow> bool" where
  "truthy JNull = False"
| "truthy (JBool b) = b"
| "truthy (JNum x) = (x \<noteq> 0)"
| "truthy (JStr s) = (s \<noteq> [])"
| "truthy (JArr xs) = (xs \<noteq> [])"
| "truthy (JObj kvs) = (kvs \<noteq> [])"

text \<open>
  \<open>d.get(key, default)\<close>: only a dict has the method; on any other value the attribute
  lookup raises \<open>AttributeError\<close>.
\<close>

fun dict_get :: "json \<Rightarrow> str \<Rightarrow> json \<Rightarrow> error + json" where
  "dict_get (JObj kvs) key dflt =
     Inr (case map_of kvs key of Some v \<Rightarrow> v | None \<Rightarrow> dflt)"
| "dict_get _ key dflt = Inl AttributeError"

text \<open>\<open>d[key]\<close> for a string key.\<close>

fun subscript :: "json \<Rightarrow> str \<Rightarrow> error + json" where
  "subscript (JObj kvs) key =
     (case map_of kvs key of Some v \<Rightarrow> Inr v | None \<Rightarrow> Inl KeyError)"
| "subscript _ key = Inl TypeError"

text \<open>\<open>x[0]\<close>. The keys of a dict decoded from JSON are strings, so \<open>0\<close> is never one.\<close>

fun item0 :: "json \<Rightarrow> error + json" where
  "item0 (JArr []) = Inl IndexError"
| "item0 (JArr (x # xs)) = Inr x"
| "item0 (JStr []) = Inl IndexError"
| "item0 (JStr (c # cs)) = Inr (JStr [c])"
| "item0 (JObj kvs) = Inl KeyError"
| "item0 _ = Inl TypeError"

text \<open>\<open>d.items()\<close>.\<close>

fun dict_items :: "json \<Rightarrow> error + (str \<times> json) list" where
  "dict_items (JObj kvs) = Inr kvs"
| "dict_items _ = Inl AttributeError"

text \<open>Sequencing of statements that may raise: the first exception ends the function.\<close>

fun and_then :: "error + 'a \<Rightarrow> ('a \<Rightarrow> error + 'b) \<Rightarrow> error + 'b" where
  "and_then (Inl e) f = Inl e"
| "and_then (Inr v) f = f v"

section \<open>Slot extraction\<close>

text \<open>The first loop of \<open>extract_query\<close>, over the keys \<open>("query", "Query")\<close>.\<close>

fun query_slot :: "json \<Rightarrow> str list \<Rightarrow> error + json option" where
  "query_slot slots [] = Inr None"
| "query_slot slots (key # keys) =
     and_then (dict_get slots key JNull) (\<lambda>slot.
       if truthy slot
       then and_then (dict_get slot (ustr ''value'') JNull) (\<lambda>v.
              if truthy v
              then and_then (subscript slot (ustr ''value'')) (\<lambda>r. Inr (Some r))
              else query_slot slots keys)
       else query_slot slots keys)"

text \<open>The second loop, over \<open>slots.items()\<close>; it ends in \<open>return None\<close>.\<close>

fun first_value :: "(str \<times> json) list \<Rightarrow> error + json" where
  "first_value [] = Inr JNull"
| "first_value ((slot_name, slot) # rest) =
     and_then (dict_get slot (ustr ''value'') JNull) (\<lambda>v.
       if truthy v then Inr v else first_value rest)"

text \<open>The two loops in sequence: the part of \<open>extract_query\<close> below \<open>slots = ...\<close>.\<close>

definition scan_slots :: "json \<Rightarrow> error + json" where
  "scan_slots slots =
     and_then (query_slot slots [ustr ''query'', ustr ''Query'']) (\<lambda>found.
       case found of
         Some v \<Rightarrow> Inr v
       | None \<Rightarrow> and_then (dict_items slots) first_value)"

definition extract_query :: "json \<Rightarrow> error + json" where
  "extract_query event =
     and_then (dict_get event (ustr ''request'') (JObj [])) (\<lambda>request.
     and_then (dict_get request (ustr ''type'') JNull) (\<lambda>request_type.
     if request_type \<noteq> JStr (ustr ''IntentRequest'') then Inr JNull
     else
     and_then (dict_get request (ustr ''intent'') (JObj [])) (\<lambda>intent.
     and_then (dict_get intent (ustr ''slots'') (JObj [])) (\<lambda>s.
     scan_slots (if truthy s then s else JObj [])))))"

section \<open>The upstream client\<close>

text \<open>
  The request object built by \<open>call_perplexity\<close>. The field \<open>data\<close> holds the payload
  whose \<open>json.dumps\<close> text, encoded as UTF-8, is the body that is sent; \<open>http_method\<close>
  is the argument \<open>method\<close>.
\<close>

record http_request =
  url :: str
  data :: json
  http_method :: str
  headers :: "(str \<times> str) list"
  timeout :: nat

text \<open>
  What \<open>urlopen(req, timeout=20)\<close> followed by \<open>res.read().decode("utf-8")\<close> comes to:
  the decoded body, an \<open>HTTPError\<close> with its status code, a \<open>URLError\<close> that is not an
  \<open>HTTPError\<close>, or any other exception.
\<close>

datatype outcome =
    Body str
  | HTTPError int
  | URLError
  | OtherException

text \<open>
  The surroundings of the program: the module-level \<open>PERPLEXITY_API_KEY\<close> read from the
  environment (\<open>None\<close> when the variable is unset), the network behind \<open>urlopen\<close>, and
  \<open>json.loads\<close>, which gives no value when it raises on a malformed text.
\<close>

record env =
  api_key :: "str option"
  urlopen :: "http_request \<Rightarrow> outcome"
  json_loads :: "str \<Rightarrow> json option"

text \<open>The effect of the program on the world: the requests handed to \<open>urlopen\<close>, in order.\<close>

type_synonym world = "http_request list"

definition PERPLEXITY_MODEL :: str where
  "PERPLEXITY_MODEL = ustr ''sonar-pro''"

definition not_configured :: str where
  "not_configured =
     ustr ''Perplexity API key is not configured. '' @
     ustr ''Please set the PERPLEXITY_API_KEY environment variable in Lambda.''"

definition no_useful_response :: str where
  "no_useful_response = ustr ''I couldn't get a useful response from Perplexity.''"

definition no_content :: str where
  "no_content = ustr ''Perplexity didn't return any content for this question.''"

definition auth_failed :: str where
  "auth_failed = ustr ''Authentication with Perplexity failed. Please check your API key.''"

definition problem_contacting :: str where
  "problem_contacting = ustr ''I had a problem contacting Perplexity.''"

definition could_not_reach :: str where
  "could_not_reach = ustr ''I couldn't reach Perplexity right now. Please try again.''"

definition something_wrong :: str where
  "something_wrong = ustr ''Something went wrong while processing your request.''"

definition build_request :: "str \<Rightarrow> json \<Rightarrow> http_request" where
  "build_request key query =
     \<lparr> url = ustr ''https://api.perplexity.ai/chat/completions'',
       data = JObj [(ustr ''model'', JStr PERPLEXITY_MODEL),
                    (ustr ''messages'',
                       JArr [JObj [(ustr ''role'', JStr (ustr ''user'')),
                                   (ustr ''content'', query)]])],
       http_method = ustr ''POST'',
       headers = [(ustr ''Authorization'', ustr ''Bearer '' @ key),
                  (ustr ''Content-Type'', ustr ''application/json'')],
       timeout = 20 \<rparr>"

text \<open>
  The statements of the \<open>try\<close> block after \<open>json.loads\<close>. An error is an exception
  raised there. \<open>clean_text\<close> raises \<open>TypeError\<close> in its first \<open>re.sub\<close> on a content
  that is not a string (an empty content never reaches it).
\<close>

definition reply_text :: "json \<Rightarrow> error + str" where
  "reply_text response_json =
     and_then (dict_get response_json (ustr ''choices'') JNull) (\<lambda>c.
     let choices = (if truthy c then c else JArr []) in
     if \<not> truthy choices then Inr no_useful_response
     else
     and_then (item0 choices) (\<lambda>choice.
     and_then (dict_get choice (ustr ''message'') (JObj [])) (\<lambda>message.
     and_then (dict_get message (ustr ''content'') (JStr [])) (\<lambda>content.
     if \<not> truthy content then Inr no_content
     else case content of
            JStr text \<Rightarrow> Inr (clean_text text)
          | _ \<Rightarrow> Inl TypeError))))"

text \<open>
  \<open>call_perplexity\<close> returns the text to speak and the world after the call. The three
  \<open>except\<close> clauses are tried in the order of the source; \<open>HTTPError\<close> is a subclass of
  \<open>URLError\<close> and comes first. What the handlers print is not part of the model.
\<close>

definition call_perplexity :: "env \<Rightarrow> json \<Rightarrow> world \<Rightarrow> str \<times> world" where
  "call_perplexity e query w =
     (case api_key e of
        None \<Rightarrow> (not_configured, w)
      | Some key \<Rightarrow>
          if key = [] then (not_configured, w)
          else
            let req = build_request key query; w' = w @ [req] in
            (case urlopen e req of
               Body raw \<Rightarrow>
                 (case json_loads e raw of
                    None \<Rightarrow> (something_wrong, w')
                  | Some response_json \<Rightarrow>
                      (case reply_text response_json of
                         Inr text \<Rightarrow> (text, w')
                       | Inl exn \<Rightarrow> (something_wrong, w')))
             | HTTPError code \<Rightarrow>
                 ((if code = 401 then auth_failed else problem_contacting), w')
             | URLError \<Rightarrow> (could_not_reach, w')
             | OtherException \<Rightarrow> (something_wrong, w')))"

section \<open>The handler\<close>

definition greeting :: str where
  "greeting =
     ustr ''Hi, I'm your Perplexity news agent. '' @
     ustr ''Ask me something like: what's the latest about OpenAI today?''"

definition not_caught :: str where
  "not_caught =
     ustr ''I didn't quite catch that. '' @
     ustr ''Try saying something like: tell me the latest about OpenAI.''"

definition no_topic :: str where
  "no_topic =
     ustr ''I didn't get the topic. '' @
     ustr ''Try saying: tell me the latest about OpenAI.''"

definition goodbye :: str where
  "goodbye = ustr ''Goodbye.''"

definition speak :: "str \<Rightarrow> json" where
  "speak text =
     JObj [(ustr ''version'', JStr (ustr ''1.0'')),
           (ustr ''response'',
              JObj [(ustr ''outputSpeech'',
                       JObj [(ustr ''type'', JStr (ustr ''PlainText'')),
                             (ustr ''text'', JStr text)]),
                    (ustr ''shouldEndSession'', JBool False)])]"

text \<open>
  The handler returns the response, or the exception it raised, and the world after the
  invocation. The \<open>context\<close> argument is never used and the printed log is not part of
  the model.
\<close>

definition handler :: "env \<Rightarrow> json \<Rightarrow> world \<Rightarrow> (error + json) \<times> world" where
  "handler e event w =
     (case dict_get event (ustr ''request'') (JObj []) of
        Inl exn \<Rightarrow> (Inl exn, w)
      | Inr request \<Rightarrow>
     (case dict_get request (ustr ''type'') JNull of
        Inl exn \<Rightarrow> (Inl exn, w)
      | Inr request_type \<Rightarrow>
     if request_type = JStr (ustr ''LaunchRequest'') then (Inr (speak greeting), w)
     else if request_type = JStr (ustr ''IntentRequest'') then
       (case dict_get request (ustr ''intent'') (JObj []) of
          Inl exn \<Rightarrow> (Inl exn, w)
        | Inr intent \<Rightarrow>
       (case dict_get intent (ustr ''name'') (JStr []) of
          Inl exn \<Rightarrow> (Inl exn, w)
        | Inr intent_name \<Rightarrow>
       if intent_name = JStr (ustr ''AMAZON.FallbackIntent'')
       then (Inr (speak not_caught), w)
       else
         (case extract_query event of
            Inl exn \<Rightarrow> (Inl exn, w)
          | Inr query \<Rightarrow>
              if \<not> truthy query then (Inr (speak no_topic), w)
              else let (reply, w') = call_perplexity e query w
                   in (Inr (speak reply), w'))))
     else (Inr (speak goodbye), w)))"

section \<open>The shapes the interface documents\<close>

text \<open>
  The inbound event of the external interface: a mapping with a \<open>request\<close> mapping in
  it, whose \<open>intent\<close>, when present, is a mapping, whose \<open>slots\<close>, when present, map
  slot names to mappings. The request type and the intent name are left open.
\<close>

fun is_dict :: "json \<Rightarrow> bool" where
  "is_dict (JObj kvs) = True"
| "is_dict _ = False"

definition inbound_event :: "json \<Rightarrow> bool" where
  "inbound_event event \<longleftrightarrow>
     (case event of
        JObj ev \<Rightarrow>
          (case map_of ev (ustr ''request'') of
             Some (JObj req) \<Rightarrow>
               (case map_of req (ustr ''intent'') of
                  None \<Rightarrow> True
                | Some (JObj intent) \<Rightarrow>
                    (case map_of intent (ustr ''slots'') of
                       None \<Rightarrow> True
                     | Some (JObj slots) \<Rightarrow>
                         list_all (\<lambda>(slot_name, slot). is_dict slot) slots
                     | Some _ \<Rightarrow> False)
                | Some _ \<Rightarrow> False)
           | _ \<Rightarrow> False)
      | _ \<Rightarrow> False)"

text \<open>
  Slot extraction as the specification words it, to be compared with \<open>extract_query\<close>:
  the value of a slot is its \<open>value\<close> field (none when the field is absent); the slot
  named \<open>query\<close>, then the one named \<open>Query\<close>, is preferred when its value is
  non-empty; otherwise the first slot in stored order with a non-empty value gives the
  result; otherwise there is none.
\<close>

definition slot_value :: "json \<Rightarrow> json" where
  "slot_value slot =
     (case slot of
        JObj kvs \<Rightarrow> (case map_of kvs (ustr ''value'') of Some v \<Rightarrow> v | None \<Rightarrow> JNull)
      | _ \<Rightarrow> JNull)"

definition named_value :: "(str \<times> json) list \<Rightarrow> str \<Rightarrow> json" where
  "named_value slots key =
     (case map_of slots key of Some slot \<Rightarrow> slot_value slot | None \<Rightarrow> JNull)"

definition spec_extract :: "(str \<times> json) list \<Rightarrow> json" where
  "spec_extract slots =
     (if truthy (named_value slots (ustr ''query'')) then named_value slots (ustr ''query'')
      else if truthy (named_value slots (ustr ''Query'')) then named_value slots (ustr ''Query'')
      else case find (\<lambda>(slot_name, slot). truthy (slot_value slot)) slots of
             Some (slot_name, slot) \<Rightarrow> slot_value slot
           | None \<Rightarrow> JNull)"

section \<open>The normal form of sanitized text\<close>

text \<open>
  Predicates for stating what \<open>clean_text\<close> achieves: \<open>is_mark\<close> holds for the eight
  characters that are deleted; a text is \<open>collapsed\<close> when each of its whitespace
  characters is a single space between two other characters or at an end, \<open>trimmed\<close>
  when it neither starts nor ends with whitespace, and \<open>tidy\<close> when all three hold.
\<close>

definition is_mark :: "codepoint \<Rightarrow> bool" where
  "is_mark c \<longleftrightarrow>
     c = star \<or> c = underscore \<or> c = backtick \<or> c = hash \<or>
     c = lbracket \<or> c = rbracket \<or> c = lparen \<or> c = rparen"

fun collapsed :: "str \<Rightarrow> bool" where
  "collapsed [] = True"
| "collapsed [a] = (is_space a \<longrightarrow> a = space)"
| "collapsed (a # b # cs) = ((is_space a \<longrightarrow> a = space \<and> \<not> is_space b) \<and> collapsed (b # cs))"

definition trimmed :: "str \<Rightarrow> bool" where
  "trimmed xs \<longleftrightarrow> xs = [] \<or> (\<not> is_space (hd xs) \<and> \<not> is_space (last xs))"

definition tidy :: "str \<Rightarrow> bool" where
  "tidy xs \<longleftrightarrow> (\<forall>c\<in>set xs. \<not> is_mark c) \<and> collapsed xs \<and> trimmed xs"

section \<open>The sanitizer on concrete texts\<close>

lemmas eval_simps =
  clean_text_def normalise_def strip_def rstrip_def replace_char_def match_bullet_def
  is_space_def ustr_def max_len_def more_suffix_def char_defs

text \<open>
  C4 (as amended). On \<open>"**Hello** - world\n\nMore (info) [ref]"\<close> the sanitizer returns
  \<open>"Hello - world More info ref"\<close>: the dash follows \<open>Hello\<close> on its line, so the
  bullet pattern, anchored at line starts, leaves it in place.
\<close>

theorem clean_text_example:
  "clean_text (ustr ''**Hello** - world'' @ [newline, newline] @ ustr ''More (info) [ref]'')
     = ustr ''Hello - world More info ref''"
  by (simp add: eval_simps)

text \<open>
  C4 (as stated) fails: the sanitizer does not return \<open>"Hello world More info ref"\<close> on
  that input.
\<close>

theorem clean_text_example_counterexample:
  "clean_text (ustr ''**Hello** - world'' @ [newline, newline] @ ustr ''More (info) [ref]'')
     \<noteq> ustr ''Hello world More info ref''"
  by (simp add: eval_simps)

section \<open>Properties of the sanitizer\<close>

lemma sub_each_delete: "sub_each P [] xs = filter (\<lambda>c. \<not> P c) xs"
  by (induction xs) simp_all

lemma filter_dropWhile_not: "filter (\<lambda>c. \<not> P c) (dropWhile P xs) = filter (\<lambda>c. \<not> P c) xs"
  by (induction xs) simp_all

lemma sub_runs_delete: "sub_runs P [] xs = filter (\<lambda>c. \<not> P c) xs"
  by (induction P "[] :: str" xs rule: sub_runs.induct) (simp_all add: filter_dropWhile_not)

lemma set_sub_runs: "set (sub_runs P r xs) \<subseteq> set xs \<union> set r"
proof (induction P r xs rule: sub_runs.induct)
  case (1 P r)
  then show ?case by simp
next
  case (2 P r c cs)
  show ?case
  proof (cases "P c")
    case True
    with 2 have "set (sub_runs P r (dropWhile P cs)) \<subseteq> set (dropWhile P cs) \<union> set r"
      by simp
    also have "\<dots> \<subseteq> set cs \<union> set r"
      using set_dropWhileD [of _ P cs] by auto
    finally show ?thesis using True by auto
  next
    case False
    with 2 show ?thesis by auto
  qed
qed

lemma match_bullet_rest:
  assumes "match_bullet text = Some (m, rest)"
  shows "set rest \<subseteq> set text"
proof -
  from assms obtain d after where
    d: "dropWhile is_space text = d # after" and r: "rest = dropWhile is_space after"
    by (auto simp: match_bullet_def split: list.splits if_splits)
  have "set rest \<subseteq> set after"
    unfolding r using set_dropWhileD [of _ is_space after] by auto
  also have "\<dots> \<subseteq> set (dropWhile is_space text)"
    unfolding d by auto
  also have "\<dots> \<subseteq> set text"
    using set_dropWhileD [of _ is_space "text"] by auto
  finally show ?thesis .
qed

lemma set_sub_bullets: "set (sub_bullets bol xs) \<subseteq> set xs"
proof (induction bol xs rule: sub_bullets.induct)
  case (1 bol)
  then show ?case by simp
next
  case (2 bol c cs)
  show ?case
  proof (cases "if bol then match_bullet (c # cs) else None")
    case None
    with 2 show ?thesis by auto
  next
    case (Some p)
    obtain m rest where p: "p = (m, rest)" by (cases p)
    with Some 2 have "set (sub_bullets (last m = newline) rest) \<subseteq> set rest"
      by simp
    moreover from Some p have "match_bullet (c # cs) = Some (m, rest)"
      by (simp split: if_splits)
    then have "set rest \<subseteq> set (c # cs)"
      by (rule match_bullet_rest)
    ultimately show ?thesis using Some p by simp
  qed
qed

lemma hd_dropWhile_not: "dropWhile P xs = y # ys \<Longrightarrow> \<not> P y"
  using hd_dropWhile [of P xs] by simp

lemma collapsed_sub_runs: "collapsed (sub_runs is_space [space] xs)"
proof (induction "is_space" "[space]" xs rule: sub_runs.induct)
  case 1
  then show ?case by simp
next
  case (2 c cs)
  show ?case
  proof (cases "is_space c")
    case True
    with 2 have ih: "collapsed (sub_runs is_space [space] (dropWhile is_space cs))" by simp
    show ?thesis
    proof (cases "dropWhile is_space cs")
      case Nil
      show ?thesis by (simp add: True Nil)
    next
      case (Cons y ys)
      then have "\<not> is_space y" by (rule hd_dropWhile_not)
      with ih show ?thesis by (simp add: True Cons)
    qed
  next
    case False
    with 2 have ih: "collapsed (sub_runs is_space [space] cs)" by simp
    with False show ?thesis
      by (cases "sub_runs is_space [space] cs") simp_all
  qed
qed

lemma sub_runs_collapsed: "collapsed xs \<Longrightarrow> sub_runs is_space [space] xs = xs"
  by (induction xs rule: collapsed.induct) auto

lemma collapsed_tl: "collapsed (a # xs) \<Longrightarrow> collapsed xs"
  by (cases xs) simp_all

lemma collapsed_append_right: "collapsed (xs @ ys) \<Longrightarrow> collapsed ys"
  by (induction xs) (auto dest: collapsed_tl)

lemma collapsed_append_left: "collapsed (xs @ ys) \<Longrightarrow> collapsed xs"
proof (induction xs rule: collapsed.induct)
  case 1
  then show ?case by simp
next
  case (2 a)
  then show ?case by (cases ys) simp_all
next
  case (3 a b cs)
  then show ?case by simp
qed

lemma collapsed_join:
  "collapsed xs \<Longrightarrow> collapsed (y # ys) \<Longrightarrow> \<not> is_space y \<Longrightarrow> collapsed (xs @ y # ys)"
  by (induction xs rule: collapsed.induct) auto

lemma collapsed_space: "collapsed xs \<Longrightarrow> c \<in> set xs \<Longrightarrow> is_space c \<Longrightarrow> c = space"
  by (induction xs rule: collapsed.induct) auto

lemma collapsed_nth:
  "collapsed xs \<Longrightarrow> Suc i < length xs \<Longrightarrow> \<not> (is_space (xs ! i) \<and> is_space (xs ! Suc i))"
proof (induction xs arbitrary: i rule: collapsed.induct)
  case 1
  then show ?case by simp
next
  case (2 a)
  then show ?case by simp
next
  case (3 a b cs)
  then show ?case by (cases i) auto
qed

lemma rstrip_decomp: "xs = rstrip xs @ rev (takeWhile is_space (rev xs))"
proof -
  have "rstrip xs @ rev (takeWhile is_space (rev xs)) =
          rev (takeWhile is_space (rev xs) @ dropWhile is_space (rev xs))"
    by (simp only: rstrip_def rev_append)
  also have "\<dots> = rev (rev xs)"
    by (simp only: takeWhile_dropWhile_id)
  finally show ?thesis by simp
qed

lemma rstrip_trailing: "rstrip xs = [] \<or> \<not> is_space (last (rstrip xs))"
proof (cases "dropWhile is_space (rev xs)")
  case Nil
  then show ?thesis by (simp add: rstrip_def)
next
  case (Cons y ys)
  then have "\<not> is_space y" by (rule hd_dropWhile_not)
  then show ?thesis by (simp add: rstrip_def Cons)
qed

lemma rstrip_id: "xs = [] \<or> \<not> is_space (last xs) \<Longrightarrow> rstrip xs = xs"
proof (cases "rev xs")
  case Nil
  then show ?thesis by (simp add: rstrip_def)
next
  case (Cons y ys)
  assume "xs = [] \<or> \<not> is_space (last xs)"
  with Cons have "\<not> is_space y"
    by (metis Nil_is_rev_conv hd_rev list.distinct(1) list.sel(1))
  then have "dropWhile is_space (rev xs) = rev xs"
    by (simp add: Cons)
  then show ?thesis by (simp add: rstrip_def)
qed

lemma length_rstrip: "length (rstrip xs) \<le> length xs"
  by (simp add: rstrip_def length_dropWhile_le [of is_space "rev xs", simplified])

lemma set_rstrip: "set (rstrip xs) \<subseteq> set xs"
  using set_dropWhileD [of _ is_space "rev xs"] by (auto simp: rstrip_def)

lemma collapsed_rstrip: "collapsed xs \<Longrightarrow> collapsed (rstrip xs)"
  using rstrip_decomp [of xs] collapsed_append_left by metis

lemma hd_rstrip: "rstrip xs \<noteq> [] \<Longrightarrow> hd (rstrip xs) = hd xs"
  using rstrip_decomp [of xs] by (metis hd_append2)

lemma set_strip: "set (strip xs) \<subseteq> set xs"
  using set_dropWhileD [of _ is_space "rstrip xs"] set_rstrip [of xs]
  by (auto simp: strip_def)

lemma collapsed_strip: "collapsed xs \<Longrightarrow> collapsed (strip xs)"
proof -
  assume "collapsed xs"
  then have "collapsed (rstrip xs)" by (rule collapsed_rstrip)
  then have "collapsed (takeWhile is_space (rstrip xs) @ dropWhile is_space (rstrip xs))"
    by simp
  then show ?thesis
    unfolding strip_def by (rule collapsed_append_right)
qed

lemma trimmed_strip: "trimmed (strip xs)"
proof (cases "strip xs")
  case Nil
  then show ?thesis by (simp add: trimmed_def)
next
  case (Cons y ys)
  then have d: "dropWhile is_space (rstrip xs) = y # ys"
    by (simp add: strip_def)
  then have y: "\<not> is_space y" by (rule hd_dropWhile_not)
  have "rstrip xs = takeWhile is_space (rstrip xs) @ y # ys"
    using takeWhile_dropWhile_id [of is_space "rstrip xs"] d by simp
  then have "last (rstrip xs) = last (y # ys)"
    by (metis last_appendR list.distinct(1))
  moreover have "rstrip xs \<noteq> []" using d by auto
  ultimately have "\<not> is_space (last (y # ys))"
    using rstrip_trailing [of xs] by simp
  with y Cons show ?thesis by (simp add: trimmed_def)
qed

lemma strip_id: "trimmed xs \<Longrightarrow> strip xs = xs"
proof -
  assume t: "trimmed xs"
  then have "rstrip xs = xs"
    by (intro rstrip_id) (auto simp: trimmed_def)
  moreover from t have "dropWhile is_space xs = xs"
    by (cases xs) (auto simp: trimmed_def)
  ultimately show ?thesis by (simp add: strip_def)
qed

lemma strip_marks:
  "sub_each (\<lambda>c. c = lparen \<or> c = rparen) []
     (sub_each (\<lambda>c. c = lbracket \<or> c = rbracket) []
       (sub_runs (\<lambda>c. c = hash) []
         (sub_runs (\<lambda>c. c = backtick) []
           (sub_each (\<lambda>c. c = underscore) []
             (sub_each (\<lambda>c. c = star) [] xs)))))
   = filter (\<lambda>c. \<not> is_mark c) xs"
  by (simp add: sub_each_delete sub_runs_delete is_mark_def)

lemma normalise_unfold:
  "normalise xs =
     strip (sub_runs is_space [space]
       (replace_char newline space (sub_bullets True (filter (\<lambda>c. \<not> is_mark c) xs))))"
  by (simp add: normalise_def strip_marks)

lemma is_space_space: "is_space space" and is_space_newline: "is_space newline"
  and not_mark_space: "\<not> is_mark space"
  by (simp_all add: is_space_def is_mark_def char_defs)

lemma normalise_marks: "c \<in> set (normalise xs) \<Longrightarrow> \<not> is_mark c"
proof -
  assume "c \<in> set (normalise xs)"
  then have "c \<in> set (sub_runs is_space [space]
       (replace_char newline space (sub_bullets True (filter (\<lambda>c. \<not> is_mark c) xs))))"
    unfolding normalise_unfold using set_strip by blast
  then have "c = space \<or> c \<in> set
       (replace_char newline space (sub_bullets True (filter (\<lambda>c. \<not> is_mark c) xs)))"
    using set_sub_runs by fastforce
  then have "c = space \<or> c \<in> set (sub_bullets True (filter (\<lambda>c. \<not> is_mark c) xs))"
    by (auto simp: replace_char_def split: if_splits)
  then have "c = space \<or> c \<in> set (filter (\<lambda>c. \<not> is_mark c) xs)"
    using set_sub_bullets by blast
  then show ?thesis
    using not_mark_space by auto
qed

lemma tidy_normalise: "tidy (normalise xs)"
  unfolding tidy_def
proof (intro conjI ballI)
  fix c assume "c \<in> set (normalise xs)"
  then show "\<not> is_mark c" by (rule normalise_marks)
next
  show "collapsed (normalise xs)"
    unfolding normalise_unfold by (intro collapsed_strip collapsed_sub_runs)
next
  show "trimmed (normalise xs)"
    unfolding normalise_unfold by (rule trimmed_strip)
qed

lemma collapsed_no_newline: "collapsed xs \<Longrightarrow> newline \<notin> set xs"
  using collapsed_space [of xs newline] by (auto simp: is_space_def char_defs)

lemma match_bullet_None: "\<not> is_space c \<Longrightarrow> c \<noteq> dash \<Longrightarrow> match_bullet (c # cs) = None"
  by (simp add: match_bullet_def)

lemma sub_bullets_False_id: "newline \<notin> set xs \<Longrightarrow> sub_bullets False xs = xs"
  by (induction xs) auto

lemma sub_bullets_True_id:
  assumes "newline \<notin> set xs" and "xs = [] \<or> (\<not> is_space (hd xs) \<and> hd xs \<noteq> dash)"
  shows "sub_bullets True xs = xs"
proof (cases xs)
  case Nil
  then show ?thesis by simp
next
  case (Cons c cs)
  with assms have "match_bullet (c # cs) = None" and "c \<noteq> newline" and "newline \<notin> set cs"
    by (auto intro: match_bullet_None)
  with Cons show ?thesis
    by (simp add: sub_bullets_False_id)
qed

lemma normalise_id:
  assumes "tidy xs" and "xs = [] \<or> hd xs \<noteq> dash"
  shows "normalise xs = xs"
proof -
  from assms(1) have marks: "filter (\<lambda>c. \<not> is_mark c) xs = xs"
    and col: "collapsed xs" and trim: "trimmed xs"
    by (auto simp: tidy_def)
  from col have nl: "newline \<notin> set xs" by (rule collapsed_no_newline)
  from trim assms(2) have "xs = [] \<or> (\<not> is_space (hd xs) \<and> hd xs \<noteq> dash)"
    by (auto simp: trimmed_def)
  with nl have bullets: "sub_bullets True xs = xs" by (rule sub_bullets_True_id)
  from nl have repl: "replace_char newline space xs = xs"
    by (auto simp: replace_char_def intro: map_idI)
  show ?thesis
    by (simp add: normalise_unfold marks bullets repl sub_runs_collapsed [OF col] strip_id [OF trim])
qed

lemma more_suffix_facts:
  "tidy more_suffix" "more_suffix \<noteq> []" "\<not> is_space (hd more_suffix)"
  "\<not> is_space (last more_suffix)" "length more_suffix = 33" "hd more_suffix \<noteq> dash"
  by (simp_all add: tidy_def trimmed_def is_mark_def more_suffix_def ustr_def is_space_def
      char_defs)

lemma tidy_truncated:
  assumes "tidy n" and "max_len < length n"
  shows "tidy (rstrip (take max_len n) @ more_suffix)"
proof -
  let ?t = "rstrip (take max_len n)"
  from assms(1) have marks: "\<forall>c\<in>set n. \<not> is_mark c" and col: "collapsed n" and trim: "trimmed n"
    by (auto simp: tidy_def)
  have sub: "set ?t \<subseteq> set n"
    using set_rstrip [of "take max_len n"] set_take_subset [of max_len n] by blast
  from col have "collapsed (take max_len n @ drop max_len n)" by simp
  then have "collapsed (take max_len n)" by (rule collapsed_append_left)
  then have ct: "collapsed ?t" by (rule collapsed_rstrip)
  obtain y ys where suf: "more_suffix = y # ys"
    using more_suffix_facts(2) by (cases more_suffix) auto
  have y: "\<not> is_space y"
    using more_suffix_facts(3) unfolding suf by simp
  have cs: "collapsed (y # ys)"
    using more_suffix_facts(1) unfolding suf tidy_def by simp
  from ct cs y have c: "collapsed (?t @ more_suffix)"
    unfolding suf by (rule collapsed_join)
  from assms(2) have "n \<noteq> []" by auto
  with trim have hn: "\<not> is_space (hd n)" by (simp add: trimmed_def)
  have "hd (?t @ more_suffix) = (if ?t = [] then hd more_suffix else hd n)"
    using assms(2) hd_rstrip [of "take max_len n"] by (auto simp: max_len_def hd_append)
  with hn more_suffix_facts(3) have h: "\<not> is_space (hd (?t @ more_suffix))"
    by auto
  have l: "\<not> is_space (last (?t @ more_suffix))"
    using more_suffix_facts by simp
  from marks sub more_suffix_facts(1) have "\<forall>c\<in>set (?t @ more_suffix). \<not> is_mark c"
    by (auto simp: tidy_def)
  with c h l show ?thesis
    by (simp add: tidy_def trimmed_def)
qed

lemma tidy_clean_text: "tidy (clean_text xs)"
  using tidy_normalise [of xs] tidy_truncated [of "normalise xs"]
  by (simp add: clean_text_def Let_def tidy_def trimmed_def)

lemma normalise_Nil: "normalise [] = []"
  by (simp add: normalise_unfold strip_def rstrip_def replace_char_def)

text \<open>
  C9. For a non-empty input, the output of the sanitizer contains none of the characters
  \<open>* _ ` # [ ] ( )\<close> and no newline, has no two adjacent whitespace characters, and
  neither starts nor ends with whitespace.
\<close>

theorem clean_text_tidy:
  assumes "text \<noteq> []"
  shows "(\<forall>c\<in>set (clean_text text).
            c \<notin> {star, underscore, backtick, hash, lbracket, rbracket, lparen, rparen,
                 newline}) \<and>
         (\<forall>i. Suc i < length (clean_text text) \<longrightarrow>
            \<not> (is_space (clean_text text ! i) \<and> is_space (clean_text text ! Suc i))) \<and>
         (clean_text text \<noteq> [] \<longrightarrow>
            \<not> is_space (hd (clean_text text)) \<and> \<not> is_space (last (clean_text text)))"
proof -
  have t: "tidy (clean_text text)" by (rule tidy_clean_text)
  then have col: "collapsed (clean_text text)" by (simp add: tidy_def)
  have "\<forall>c\<in>set (clean_text text).
            c \<notin> {star, underscore, backtick, hash, lbracket, rbracket, lparen, rparen, newline}"
    using t collapsed_no_newline [OF col] by (auto simp: tidy_def is_mark_def)
  moreover have "\<forall>i. Suc i < length (clean_text text) \<longrightarrow>
            \<not> (is_space (clean_text text ! i) \<and> is_space (clean_text text ! Suc i))"
    using collapsed_nth [OF col] by blast
  moreover have "clean_text text \<noteq> [] \<longrightarrow>
            \<not> is_space (hd (clean_text text)) \<and> \<not> is_space (last (clean_text text))"
    using t by (auto simp: tidy_def trimmed_def)
  ultimately show ?thesis by blast
qed

theorem clean_text_tidy_witness:
  "ustr ''# _Top_ (news)  '' \<noteq> [] \<and>
   clean_text (ustr ''# _Top_ (news)  '') = ustr ''Top news'' \<and>
   underscore \<notin> set (clean_text (ustr ''# _Top_ (news)  '')) \<and>
   \<not> is_space (hd (clean_text (ustr ''# _Top_ (news)  ''))) \<and>
   \<not> is_space (last (clean_text (ustr ''# _Top_ (news)  '')))"
proof -
  have c: "clean_text (ustr ''# _Top_ (news)  '') = ustr ''Top news''"
    by (simp add: eval_simps)
  have n: "ustr ''# _Top_ (news)  '' \<noteq> []"
    by (simp add: ustr_def)
  from c have "clean_text (ustr ''# _Top_ (news)  '') \<noteq> []"
    by (simp add: ustr_def)
  with clean_text_tidy [OF n] c n show ?thesis
    by blast
qed

text \<open>
  C8. The output of the sanitizer is never longer than 700 characters plus the length of
  the suffix \<open>"... Let me know if you want more."\<close>. When the normalised text is longer
  than 700 characters, the output is its first 700 characters without their trailing
  whitespace, followed by that suffix.
\<close>

theorem clean_text_length:
  "length (clean_text text) \<le> 700 + length (ustr ''... Let me know if you want more.'') \<and>
   (700 < length (normalise text) \<longrightarrow>
      (\<exists>t ws. take 700 (normalise text) = t @ ws \<and> (\<forall>c\<in>set ws. is_space c) \<and>
         (t = [] \<or> \<not> is_space (last t)) \<and>
         clean_text text = t @ ustr ''... Let me know if you want more.''))"
proof (intro conjI impI)
  have "length (rstrip (take max_len (normalise text))) \<le> max_len"
    using length_rstrip [of "take max_len (normalise text)"] by simp
  then show "length (clean_text text) \<le> 700 + length (ustr ''... Let me know if you want more.'')"
    by (simp add: clean_text_def Let_def more_suffix_def max_len_def)
next
  assume long: "700 < length (normalise text)"
  then have ne: "text \<noteq> []" using normalise_Nil by auto
  let ?cut = "take 700 (normalise text)"
  have "?cut = rstrip ?cut @ rev (takeWhile is_space (rev ?cut))"
    by (rule rstrip_decomp)
  moreover have "\<forall>c\<in>set (rev (takeWhile is_space (rev ?cut))). is_space c"
    using set_takeWhileD [of _ is_space "rev ?cut"] by auto
  moreover have "rstrip ?cut = [] \<or> \<not> is_space (last (rstrip ?cut))"
    by (rule rstrip_trailing)
  moreover have "clean_text text = rstrip ?cut @ ustr ''... Let me know if you want more.''"
    using long ne by (simp add: clean_text_def Let_def more_suffix_def max_len_def)
  ultimately show "\<exists>t ws. ?cut = t @ ws \<and> (\<forall>c\<in>set ws. is_space c) \<and>
         (t = [] \<or> \<not> is_space (last t)) \<and>
         clean_text text = t @ ustr ''... Let me know if you want more.''"
    by blast
qed

lemma collapsed_replicate: "\<not> is_space a \<Longrightarrow> collapsed (replicate n a)"
proof (induction n)
  case 0
  then show ?case by simp
next
  case (Suc n)
  then show ?case by (cases n) simp_all
qed

lemma tidy_replicate: "\<not> is_space a \<Longrightarrow> \<not> is_mark a \<Longrightarrow> tidy (replicate n a)"
  by (cases n) (auto simp: tidy_def trimmed_def collapsed_replicate simp del: replicate_Suc)

lemma letter_a: "\<not> is_space 97" "\<not> is_mark 97" "97 \<noteq> dash"
  by (simp_all add: is_space_def is_mark_def char_defs)

lemma normalise_letters: "normalise (replicate n 97) = replicate n 97"
  by (rule normalise_id) (auto simp: tidy_replicate letter_a)

theorem clean_text_length_witness:
  "700 < length (normalise (replicate 701 97)) \<and>
   length (clean_text (replicate 701 97))
     \<le> 700 + length (ustr ''... Let me know if you want more.'') \<and>
   clean_text (replicate 701 97) = replicate 700 97 @ ustr ''... Let me know if you want more.''"
proof -
  have long: "700 < length (normalise (replicate 701 97))"
    by (simp add: normalise_letters)
  with clean_text_length [of "replicate 701 97"] obtain t ws where
    cut: "take 700 (normalise (replicate 701 97)) = t @ ws" and
    ws: "\<forall>c\<in>set ws. is_space c" and
    out: "clean_text (replicate 701 97) = t @ ustr ''... Let me know if you want more.''"
    by blast
  from cut have tw: "replicate 700 97 = t @ ws"
    by (simp add: normalise_letters)
  then have "set ws \<subseteq> set (replicate 700 (97 :: nat))"
    by (metis set_append sup_ge2)
  with ws letter_a(1) have "ws = []"
    by (cases ws) auto
  with tw out long clean_text_length [of "replicate 701 97"] show ?thesis
    by simp
qed

lemma last_take: "0 < k \<Longrightarrow> k \<le> length xs \<Longrightarrow> last (take k xs) = xs ! (k - 1)"
  by (cases xs) (simp_all add: last_conv_nth min_def)

text \<open>
  C3 (as amended). Sanitizing twice gives the same text as sanitizing once whenever the
  sanitized text does not begin with a dash and, in case the normalised text was longer
  than 700 characters, its 700th character is not whitespace (so that the cut keeps all
  700 characters in front of the suffix).
\<close>

theorem clean_text_idempotent:
  assumes "clean_text text = [] \<or> hd (clean_text text) \<noteq> dash"
    and "length (normalise text) \<le> max_len \<or> \<not> is_space (normalise text ! (max_len - 1))"
  shows "clean_text (clean_text text) = clean_text text"
proof -
  let ?y = "clean_text text"
  have "tidy ?y" by (rule tidy_clean_text)
  then have same: "normalise ?y = ?y" using assms(1) by (rule normalise_id)
  show ?thesis
  proof (cases "length ?y \<le> max_len")
    case True
    with same show ?thesis
      by (simp add: clean_text_def [of ?y] Let_def)
  next
    case False
    then have ne: "text \<noteq> []" and long: "max_len < length (normalise text)"
      and y: "?y = rstrip (take max_len (normalise text)) @ more_suffix"
      by (auto simp: clean_text_def Let_def split: if_splits)
    let ?cut = "take max_len (normalise text)"
    from long assms(2) have "\<not> is_space (normalise text ! (max_len - 1))" by simp
    moreover from long have "?cut \<noteq> []" and "last ?cut = normalise text ! (max_len - 1)"
      using last_take [of max_len "normalise text"] by (auto simp: max_len_def)
    ultimately have r: "rstrip ?cut = ?cut"
      by (intro rstrip_id) simp
    from long have cut: "take max_len (?cut @ more_suffix) = ?cut"
      by simp
    from False have "?y \<noteq> []" by auto
    then have "clean_text ?y =
        (if max_len < length (normalise ?y)
         then rstrip (take max_len (normalise ?y)) @ more_suffix else normalise ?y)"
      by (simp only: clean_text_def [of ?y] Let_def if_False)
    also have "\<dots> = rstrip (take max_len ?y) @ more_suffix"
      using False by (simp only: same not_le if_True)
    also have "\<dots> = rstrip (take max_len (?cut @ more_suffix)) @ more_suffix"
      using y by (simp only: r)
    also have "\<dots> = ?cut @ more_suffix"
      by (simp only: cut r)
    also have "\<dots> = ?y"
      using y by (simp only: r)
    finally show ?thesis .
  qed
qed

text \<open>
  C3 (as stated) fails: the bullet pattern removes one dash at the start of a line, so
  \<open>"--a"\<close> is sanitized to \<open>"-a"\<close>, and that to \<open>"a"\<close>.
\<close>

theorem clean_text_idempotent_counterexample:
  "clean_text (clean_text (ustr ''--a'')) \<noteq> clean_text (ustr ''--a'')"
  by (simp add: eval_simps)

theorem clean_text_idempotent_witness:
  "hd (clean_text (ustr ''**Hello** - world'')) \<noteq> dash \<and>
   length (normalise (ustr ''**Hello** - world'')) \<le> max_len \<and>
   clean_text (ustr ''**Hello** - world'') = ustr ''Hello - world'' \<and>
   clean_text (clean_text (ustr ''**Hello** - world'')) = clean_text (ustr ''**Hello** - world'')"
  using clean_text_idempotent [of "ustr ''**Hello** - world''"]
  by (simp add: eval_simps)

text \<open>
  Idempotence also fails on a truncated text that was cut right after a space: with 699
  letters, a space and one more letter, the first pass keeps 699 letters in front of the
  suffix, and the second pass cuts one character into the suffix.
\<close>
lemma clean_text_cut_at_space:
  "clean_text (replicate 698 97 @ ustr ''a b'') = replicate 698 97 @ ustr ''a'' @ more_suffix"
proof -
  let ?x = "replicate 698 97 @ ustr ''a b''"
  have "collapsed (replicate 698 97 @ 97 # [space, 98])"
    by (rule collapsed_join [OF collapsed_replicate])
       (simp_all add: is_space_def char_defs)
  then have "tidy ?x"
    by (simp add: tidy_def trimmed_def ustr_def is_mark_def is_space_def char_defs)
  then have "normalise ?x = ?x"
    by (rule normalise_id) (simp add: ustr_def char_defs)
  moreover have "rstrip (replicate 698 97 @ [97, 32]) = replicate 698 97 @ [97]"
    by (simp add: rstrip_def is_space_def)
  ultimately show ?thesis
    by (simp add: clean_text_def max_len_def ustr_def)
qed

lemma clean_text_truncated_not_idempotent:
  "clean_text (clean_text (replicate 698 97 @ ustr ''a b''))
     \<noteq> clean_text (replicate 698 97 @ ustr ''a b'')"
proof -
  let ?y = "replicate 698 97 @ ustr ''a'' @ more_suffix"
  have y: "clean_text (replicate 698 97 @ ustr ''a b'') = ?y"
    by (rule clean_text_cut_at_space)
  have "tidy ?y"
    using tidy_clean_text [of "replicate 698 97 @ ustr ''a b''"] by (simp only: y)
  then have n: "normalise ?y = ?y"
    by (rule normalise_id) (simp add: char_defs)
  have len: "length ?y = 732"
    by (simp add: more_suffix_facts ustr_def)
  have "take max_len ?y = replicate 698 97 @ [97, 46]"
    by (simp add: max_len_def more_suffix_def ustr_def)
  moreover have "rstrip (replicate 698 97 @ [97, 46]) = replicate 698 97 @ [97, 46]"
    by (rule rstrip_id) (simp add: is_space_def)
  ultimately have "clean_text ?y = replicate 698 97 @ [97, 46] @ more_suffix"
    using len by (simp add: clean_text_def [of ?y] n max_len_def Let_def)
  then have "length (clean_text ?y) = 733"
    by (simp add: more_suffix_facts)
  with len show ?thesis
    unfolding y by auto
qed

section \<open>Slot extraction\<close>

lemma is_dict_lookup:
  "list_all (\<lambda>(slot_name, slot). is_dict slot) slots \<Longrightarrow> map_of slots key = Some slot
     \<Longrightarrow> \<exists>kvs. slot = JObj kvs"
  by (induction slots) (auto split: if_splits elim: is_dict.elims)

lemma query_slot_step:
  assumes "list_all (\<lambda>(slot_name, slot). is_dict slot) slots"
  shows "query_slot (JObj slots) (key # keys) =
           (if truthy (named_value slots key) then Inr (Some (named_value slots key))
            else query_slot (JObj slots) keys)"
proof (cases "map_of slots key")
  case None
  then show ?thesis by (simp add: named_value_def)
next
  case (Some slot)
  with assms obtain kvs where "slot = JObj kvs"
    by (blast dest: is_dict_lookup)
  with Some show ?thesis
    by (cases "map_of kvs (ustr ''value'')") (auto simp: named_value_def slot_value_def)
qed

lemma first_value_find:
  "list_all (\<lambda>(slot_name, slot). is_dict slot) slots \<Longrightarrow>
     first_value slots =
       Inr (case find (\<lambda>(slot_name, slot). truthy (slot_value slot)) slots of
              Some (slot_name, slot) \<Rightarrow> slot_value slot
            | None \<Rightarrow> JNull)"
proof (induction slots)
  case Nil
  then show ?case by simp
next
  case (Cons p slots)
  obtain slot_name slot where p: "p = (slot_name, slot)" by (cases p)
  with Cons.prems obtain kvs where "slot = JObj kvs"
    by (cases slot) auto
  with p Cons show ?case
    by (simp add: slot_value_def)
qed

lemma scan_slots_spec:
  assumes "list_all (\<lambda>(slot_name, slot). is_dict slot) slots"
  shows "scan_slots (JObj slots) = Inr (spec_extract slots)"
  using assms
  by (simp add: scan_slots_def query_slot_step first_value_find spec_extract_def
      del: query_slot.simps(2))

lemma scan_slots_empty: "scan_slots (JObj []) = Inr JNull"
  by (simp add: scan_slots_def)

lemma or_empty_dict: "(if truthy (JObj slots) then JObj slots else JObj []) = JObj slots"
  by simp

lemma inbound_event_cases:
  assumes "inbound_event event"
  obtains
    (no_intent) ev req where "event = JObj ev"
      "map_of ev (ustr ''request'') = Some (JObj req)"
      "map_of req (ustr ''intent'') = None"
  | (no_slots) ev req intent where "event = JObj ev"
      "map_of ev (ustr ''request'') = Some (JObj req)"
      "map_of req (ustr ''intent'') = Some (JObj intent)"
      "map_of intent (ustr ''slots'') = None"
  | (slots) ev req intent slots where "event = JObj ev"
      "map_of ev (ustr ''request'') = Some (JObj req)"
      "map_of req (ustr ''intent'') = Some (JObj intent)"
      "map_of intent (ustr ''slots'') = Some (JObj slots)"
      "list_all (\<lambda>(slot_name, slot). is_dict slot) slots"
  using assms unfolding inbound_event_def
  by (auto split: json.splits option.splits)

lemma extract_query_returns:
  assumes "inbound_event event"
  shows "\<exists>query. extract_query event = Inr query"
  using assms
proof (cases rule: inbound_event_cases)
  case no_intent
  then show ?thesis
    by (simp add: extract_query_def scan_slots_empty)
next
  case no_slots
  then show ?thesis
    by (simp add: extract_query_def scan_slots_empty)
next
  case slots
  then show ?thesis
    by (simp add: extract_query_def or_empty_dict scan_slots_spec del: truthy.simps)
qed

text \<open>
  C2. For an IntentRequest event whose slots map names to mappings, \<open>extract_query\<close>
  returns what the specification describes: the non-empty value of the slot \<open>query\<close>
  or \<open>Query\<close> whatever the other slots are, otherwise the first non-empty slot value
  in stored order, otherwise none.
\<close>

theorem extract_query_spec:
  assumes "map_of ev (ustr ''request'') = Some (JObj req)"
    and "map_of req (ustr ''type'') = Some (JStr (ustr ''IntentRequest''))"
    and "map_of req (ustr ''intent'') = Some (JObj intent)"
    and "map_of intent (ustr ''slots'') = Some (JObj slots)"
    and "list_all (\<lambda>(slot_name, slot). is_dict slot) slots"
  shows "extract_query (JObj ev) = Inr (spec_extract slots)"
  using assms
  by (simp add: extract_query_def or_empty_dict scan_slots_spec del: truthy.simps)

lemmas json_eval_simps =
  ustr_def extract_query_def scan_slots_def spec_extract_def named_value_def
  slot_value_def inbound_event_def

theorem extract_query_spec_witness:
  "list_all (\<lambda>(slot_name, slot). is_dict slot)
     [(ustr ''topic'', JObj [(ustr ''name'', JStr (ustr ''topic''))]),
      (ustr ''extra'', JObj [(ustr ''value'', JStr (ustr ''sports''))]),
      (ustr ''Query'', JObj [(ustr ''value'', JStr (ustr ''OpenAI''))])] \<and>
   extract_query
     (JObj [(ustr ''request'',
        JObj [(ustr ''type'', JStr (ustr ''IntentRequest'')),
              (ustr ''intent'',
                 JObj [(ustr ''name'', JStr (ustr ''AskIntent'')),
                       (ustr ''slots'',
                          JObj [(ustr ''topic'', JObj [(ustr ''name'', JStr (ustr ''topic''))]),
                                (ustr ''extra'', JObj [(ustr ''value'', JStr (ustr ''sports''))]),
                                (ustr ''Query'', JObj [(ustr ''value'', JStr (ustr ''OpenAI''))])])])])])
     = Inr (JStr (ustr ''OpenAI''))"
  using extract_query_spec
    [of "[(ustr ''request'',
        JObj [(ustr ''type'', JStr (ustr ''IntentRequest'')),
              (ustr ''intent'',
                 JObj [(ustr ''name'', JStr (ustr ''AskIntent'')),
                       (ustr ''slots'',
                          JObj [(ustr ''topic'', JObj [(ustr ''name'', JStr (ustr ''topic''))]),
                                (ustr ''extra'', JObj [(ustr ''value'', JStr (ustr ''sports''))]),
                                (ustr ''Query'', JObj [(ustr ''value'', JStr (ustr ''OpenAI''))])])])])]"
        "[(ustr ''type'', JStr (ustr ''IntentRequest'')),
              (ustr ''intent'',
                 JObj [(ustr ''name'', JStr (ustr ''AskIntent'')),
                       (ustr ''slots'',
                          JObj [(ustr ''topic'', JObj [(ustr ''name'', JStr (ustr ''topic''))]),
                                (ustr ''extra'', JObj [(ustr ''value'', JStr (ustr ''sports''))]),
                                (ustr ''Query'', JObj [(ustr ''value'', JStr (ustr ''OpenAI''))])])])]"
        "[(ustr ''name'', JStr (ustr ''AskIntent'')),
                       (ustr ''slots'',
                          JObj [(ustr ''topic'', JObj [(ustr ''name'', JStr (ustr ''topic''))]),
                                (ustr ''extra'', JObj [(ustr ''value'', JStr (ustr ''sports''))]),
                                (ustr ''Query'', JObj [(ustr ''value'', JStr (ustr ''OpenAI''))])])]"
        "[(ustr ''topic'', JObj [(ustr ''name'', JStr (ustr ''topic''))]),
                                (ustr ''extra'', JObj [(ustr ''value'', JStr (ustr ''sports''))]),
                                (ustr ''Query'', JObj [(ustr ''value'', JStr (ustr ''OpenAI''))])]"]
  by (simp add: json_eval_simps)

text \<open>
  C5. Slot extraction raises on an IntentRequest event that has a slot whose entry is
  \<open>None\<close>: the second loop calls \<open>slot.get\<close> without the test for an empty slot that
  the first loop makes.
\<close>

theorem extract_query_null_slot:
  "extract_query
     (JObj [(ustr ''request'',
        JObj [(ustr ''type'', JStr (ustr ''IntentRequest'')),
              (ustr ''intent'',
                 JObj [(ustr ''name'', JStr (ustr ''AskIntent'')),
                       (ustr ''slots'', JObj [(ustr ''topic'', JNull)])])])])
     = Inl AttributeError"
  by (simp add: json_eval_simps)

section \<open>The upstream client\<close>

text \<open>
  C6. Without a credential (the variable unset or empty) the client returns the fixed
  "not configured" message and leaves the world as it was: no request reaches
  \<open>urlopen\<close>.
\<close>

theorem call_perplexity_not_configured:
  "api_key e = None \<or> api_key e = Some [] \<Longrightarrow>
     call_perplexity e query w = (not_configured, w)"
  by (auto simp: call_perplexity_def)

theorem call_perplexity_not_configured_witness:
  "api_key \<lparr>api_key = None, urlopen = \<lambda>req. URLError, json_loads = \<lambda>raw. None\<rparr> = None \<and>
   call_perplexity \<lparr>api_key = None, urlopen = \<lambda>req. URLError, json_loads = \<lambda>raw. None\<rparr>
     (JStr (ustr ''OpenAI'')) [] = (not_configured, [])"
  using call_perplexity_not_configured
    [of "\<lparr>api_key = None, urlopen = \<lambda>req. URLError, json_loads = \<lambda>raw. None\<rparr>"
        "JStr (ustr ''OpenAI'')" "[]"]
  by simp

text \<open>
  C7. With a credential, when the call ends in an HTTP error the client returns the
  authentication-failure text for status 401 and the "problem contacting" text for
  every other status. It returns: the error does not reach the caller.
\<close>

theorem call_perplexity_http_error:
  assumes "api_key e = Some key" and "key \<noteq> []"
    and "urlopen e (build_request key query) = HTTPError code"
  shows "call_perplexity e query w =
           (if code = 401 then auth_failed else problem_contacting,
            w @ [build_request key query])"
  using assms by (simp add: call_perplexity_def)

theorem call_perplexity_http_error_witness:
  "api_key \<lparr>api_key = Some (ustr ''k''), urlopen = \<lambda>req. HTTPError 401,
            json_loads = \<lambda>raw. None\<rparr> = Some (ustr ''k'') \<and>
   ustr ''k'' \<noteq> [] \<and>
   urlopen \<lparr>api_key = Some (ustr ''k''), urlopen = \<lambda>req. HTTPError 401,
            json_loads = \<lambda>raw. None\<rparr>
     (build_request (ustr ''k'') (JStr (ustr ''OpenAI''))) = HTTPError 401 \<and>
   call_perplexity \<lparr>api_key = Some (ustr ''k''), urlopen = \<lambda>req. HTTPError 401,
                     json_loads = \<lambda>raw. None\<rparr> (JStr (ustr ''OpenAI'')) []
     = (auth_failed, [build_request (ustr ''k'') (JStr (ustr ''OpenAI''))])"
  using call_perplexity_http_error
    [of "\<lparr>api_key = Some (ustr ''k''), urlopen = \<lambda>req. HTTPError 401,
           json_loads = \<lambda>raw. None\<rparr>"
        "ustr ''k''" "JStr (ustr ''OpenAI'')" 401 "[]"]
  by (simp add: ustr_def)

section \<open>The handler\<close>

lemma handler_returns_speech:
  assumes "handler e event w = (Inr r, w')"
  shows "\<exists>text. r = speak text"
  using assms
  by (auto simp: handler_def split: sum.splits if_splits prod.splits)

lemma handler_returns:
  assumes "inbound_event event"
  shows "\<exists>text w'. handler e event w = (Inr (speak text), w')"
proof -
  from assms obtain query where q: "extract_query event = Inr query"
    using extract_query_returns by blast
  from assms show ?thesis
  proof (cases rule: inbound_event_cases)
    case no_intent
    with q show ?thesis
      by (auto simp: handler_def split: prod.splits)
  next
    case no_slots
    with q show ?thesis
      by (auto simp: handler_def split: prod.splits)
  next
    case slots
    with q show ?thesis
      by (auto simp: handler_def split: prod.splits)
  qed
qed

text \<open>
  C1. Every value the handler returns is the envelope
  \<open>{version: "1.0", response: {outputSpeech: {type: "PlainText", text: t},
  shouldEndSession: false}}\<close> for some string \<open>t\<close>, on whichever branch it was built,
  and on every event of the documented shape the handler does return one.
\<close>

theorem handler_envelope:
  "(inbound_event event \<longrightarrow> (\<exists>r w'. handler e event w = (Inr r, w'))) \<and>
   (\<forall>r w'. handler e event w = (Inr r, w') \<longrightarrow>
      (\<exists>text. r =
         JObj [(ustr ''version'', JStr (ustr ''1.0'')),
               (ustr ''response'',
                  JObj [(ustr ''outputSpeech'',
                           JObj [(ustr ''type'', JStr (ustr ''PlainText'')),
                                 (ustr ''text'', JStr text)]),
                        (ustr ''shouldEndSession'', JBool False)])]))"
proof (intro conjI impI allI)
  assume "inbound_event event"
  then show "\<exists>r w'. handler e event w = (Inr r, w')"
    using handler_returns [of event e w] by blast
next
  fix r w'
  assume "handler e event w = (Inr r, w')"
  then obtain t where "r = speak t"
    using handler_returns_speech by blast
  then show "\<exists>text. r =
         JObj [(ustr ''version'', JStr (ustr ''1.0'')),
               (ustr ''response'',
                  JObj [(ustr ''outputSpeech'',
                           JObj [(ustr ''type'', JStr (ustr ''PlainText'')),
                                 (ustr ''text'', JStr text)]),
                        (ustr ''shouldEndSession'', JBool False)])]"
    unfolding speak_def by blast
qed

theorem handler_envelope_witness:
  "inbound_event
     (JObj [(ustr ''request'',
        JObj [(ustr ''type'', JStr (ustr ''IntentRequest'')),
              (ustr ''intent'',
                 JObj [(ustr ''name'', JStr (ustr ''AskIntent'')),
                       (ustr ''slots'',
                          JObj [(ustr ''query'',
                                   JObj [(ustr ''value'', JStr (ustr ''OpenAI''))])])])])]) \<and>
   handler
     \<lparr>api_key = Some (ustr ''k''),
      urlopen = \<lambda>req. Body (ustr ''reply''),
      json_loads = \<lambda>raw. Some (JObj [(ustr ''choices'',
        JArr [JObj [(ustr ''message'',
          JObj [(ustr ''content'', JStr (ustr ''**Hi** there''))])]])])\<rparr>
     (JObj [(ustr ''request'',
        JObj [(ustr ''type'', JStr (ustr ''IntentRequest'')),
              (ustr ''intent'',
                 JObj [(ustr ''name'', JStr (ustr ''AskIntent'')),
                       (ustr ''slots'',
                          JObj [(ustr ''query'',
                                   JObj [(ustr ''value'', JStr (ustr ''OpenAI''))])])])])]) []
   = (Inr (JObj [(ustr ''version'', JStr (ustr ''1.0'')),
                 (ustr ''response'',
                    JObj [(ustr ''outputSpeech'',
                             JObj [(ustr ''type'', JStr (ustr ''PlainText'')),
                                   (ustr ''text'', JStr (ustr ''Hi there''))]),
                          (ustr ''shouldEndSession'', JBool False)])]),
      [build_request (ustr ''k'') (JStr (ustr ''OpenAI''))])"
  using handler_envelope
    [of "JObj [(ustr ''request'',
        JObj [(ustr ''type'', JStr (ustr ''IntentRequest'')),
              (ustr ''intent'',
                 JObj [(ustr ''name'', JStr (ustr ''AskIntent'')),
                       (ustr ''slots'',
                          JObj [(ustr ''query'',
                                   JObj [(ustr ''value'', JStr (ustr ''OpenAI''))])])])])]"
        "\<lparr>api_key = Some (ustr ''k''),
      urlopen = \<lambda>req. Body (ustr ''reply''),
      json_loads = \<lambda>raw. Some (JObj [(ustr ''choices'',
        JArr [JObj [(ustr ''message'',
          JObj [(ustr ''content'', JStr (ustr ''**Hi** there''))])]])])\<rparr>" "[]"]
  by (simp add: json_eval_simps handler_def call_perplexity_def reply_text_def speak_def
      eval_simps)

text \<open>
  C10. On an event mapping without a \<open>request\<close> key, or whose request is a mapping
  with a type other than \<open>LaunchRequest\<close> and \<open>IntentRequest\<close> (or with no type), the
  handler returns the farewell envelope; it raises nothing and calls nothing.
\<close>

theorem handler_other_request:
  assumes "map_of ev (ustr ''request'') = None \<or>
           map_of ev (ustr ''request'') = Some (JObj req) \<and>
           map_of req (ustr ''type'') \<noteq> Some (JStr (ustr ''LaunchRequest'')) \<and>
           map_of req (ustr ''type'') \<noteq> Some (JStr (ustr ''IntentRequest''))"
  shows "handler e (JObj ev) w = (Inr (speak goodbye), w)"
  using assms
  by (auto simp: handler_def split: option.splits)

theorem handler_other_request_witness:
  "map_of [(ustr ''request'', JObj [(ustr ''type'', JStr (ustr ''SessionEndedRequest''))])]
     (ustr ''request'') = Some (JObj [(ustr ''type'', JStr (ustr ''SessionEndedRequest''))]) \<and>
   map_of [(ustr ''type'', JStr (ustr ''SessionEndedRequest''))] (ustr ''type'')
     \<noteq> Some (JStr (ustr ''LaunchRequest'')) \<and>
   map_of [(ustr ''type'', JStr (ustr ''SessionEndedRequest''))] (ustr ''type'')
     \<noteq> Some (JStr (ustr ''IntentRequest'')) \<and>
   handler \<lparr>api_key = None, urlopen = \<lambda>req. URLError, json_loads = \<lambda>raw. None\<rparr>
     (JObj [(ustr ''request'', JObj [(ustr ''type'', JStr (ustr ''SessionEndedRequest''))])]) []
     = (Inr (speak goodbye), [])"
  using handler_other_request
    [of "[(ustr ''request'', JObj [(ustr ''type'', JStr (ustr ''SessionEndedRequest''))])]"
        "[(ustr ''type'', JStr (ustr ''SessionEndedRequest''))]"
        "\<lparr>api_key = None, urlopen = \<lambda>req. URLError, json_loads = \<lambda>raw. None\<rparr>" "[]"]
  by (simp add: ustr_def)

end
